theory Spec2Isabelle
  imports Complex_Main "HOL-Library.Word" "HOL-Library.Multiset"
begin

section \<open>Face matching: similarity scoring and gallery search\<close>

text \<open>
  The development follows \<^verbatim>\<open>src/core/face_recognition_engine.py\<close> and
  \<^verbatim>\<open>src/core/batch_processor.py\<close>. Scores are float64 in the source; here they
  are real numbers. The properties below depend on comparisons and on the control flow
  only, never on rounding. An exception of the source is the \<open>Inl\<close> branch of a sum.
\<close>

subsection \<open>Values\<close>

datatype py_error = ValueError

text \<open>The values stored under the keys of the dictionaries the engine returns.\<close>

datatype pyval = PNone | PBool bool | PInt int | PFloat real | PStr string

type_synonym encoding = "real list"

type_synonym pydict = "(string \<times> pyval) list"

text \<open>
  A gallery entry is the dictionary built by \<^verbatim>\<open>get_mugshot_encodings\<close>. The key
  \<^verbatim>\<open>'encoding'\<close> is always present (its value may be null); the other keys are read
  with \<^verbatim>\<open>.get\<close>, so \<open>None\<close> stands for an absent key.
\<close>

record known_face =
  encoding :: "encoding option"
  name :: "pyval option"
  criminal_id :: "pyval option"
  criminal_code :: "pyval option"

definition dict_get :: "pyval option \<Rightarrow> pyval \<Rightarrow> pyval" where
  "dict_get v dflt = (case v of None \<Rightarrow> dflt | Some x \<Rightarrow> x)"

subsection \<open>calculate\_similarity\<close>

text \<open>
  \<^verbatim>\<open>encoding1 - encoding2\<close> on one-dimensional numpy arrays: equal lengths subtract
  elementwise, a length-one array is broadcast against the other, and any other pair of
  lengths raises ValueError (operands could not be broadcast together).
\<close>

definition np_subtract :: "encoding \<Rightarrow> encoding \<Rightarrow> py_error + encoding" where
  "np_subtract a b =
     (if length a = length b then Inr (map2 (\<lambda>x y. x - y) a b)
      else if length a = 1 then Inr (map (\<lambda>y. hd a - y) b)
      else if length b = 1 then Inr (map (\<lambda>x. x - hd b) a)
      else Inl ValueError)"

text \<open>\<^verbatim>\<open>np.linalg.norm\<close> of a vector: the Euclidean norm.\<close>

definition linalg_norm :: "encoding \<Rightarrow> real" where
  "linalg_norm v = sqrt (sum_list (map (\<lambda>x. x * x) v))"

text \<open>
  With an empty first encoding \<^verbatim>\<open>max_distance\<close> is 0.0, the quotient 0.0 / 0.0 is
  nan (numpy warns and does not raise), and Python's \<^verbatim>\<open>max(0, nan)\<close> is 0 because
  \<^verbatim>\<open>nan > 0\<close> is false. That branch is written out, since HOL's \<open>x / 0\<close> is 0.
\<close>

definition calculate_similarity :: "encoding option \<Rightarrow> encoding option \<Rightarrow> py_error + real" where
  "calculate_similarity encoding1 encoding2 =
     (case encoding1 of
        None \<Rightarrow> Inr 0
      | Some a \<Rightarrow>
          (case encoding2 of
             None \<Rightarrow> Inr 0
           | Some b \<Rightarrow>
               (case np_subtract a b of
                  Inl err \<Rightarrow> Inl err
                | Inr d \<Rightarrow>
                    (let distance = linalg_norm d;
                         max_distance = sqrt (real (length a))
                     in if max_distance = 0 then Inr 0
                        else Inr (max 0 ((1 - distance / max_distance) * 100))))))"

subsection \<open>recognize\_face\<close>

text \<open>
  The probe image enters through \<^verbatim>\<open>encode_face\<close>, which is OpenCV's work; its
  result (an encoding, or None when the file cannot be read or shows no face) is the first
  argument here.
\<close>

definition no_match :: pydict where
  "no_match =
     [(''matched'', PBool False), (''name'', PStr ''Unknown''),
      (''confidence'', PFloat 0), (''criminal_id'', PNone)]"

definition match_result :: "known_face \<Rightarrow> real \<Rightarrow> pydict" where
  "match_result best_match best_similarity =
     [(''matched'', PBool True),
      (''name'', dict_get (name best_match) (PStr ''Unknown'')),
      (''confidence'', PFloat best_similarity),
      (''criminal_id'', dict_get (criminal_id best_match) PNone),
      (''criminal_code'', dict_get (criminal_code best_match) PNone)]"

text \<open>
  The loop of lines 188 to 196, with \<^verbatim>\<open>best_match\<close> and \<^verbatim>\<open>best_similarity\<close>
  as the state. An exception of \<^verbatim>\<open>calculate_similarity\<close> leaves the loop.
\<close>

fun find_best ::
  "encoding \<Rightarrow> real \<Rightarrow> known_face list \<Rightarrow> known_face option \<times> real
     \<Rightarrow> py_error + (known_face option \<times> real)" where
  "find_best test_encoding tolerance [] st = Inr st"
| "find_best test_encoding tolerance (known_face # rest) (best_match, best_similarity) =
     (case encoding known_face of
        None \<Rightarrow> find_best test_encoding tolerance rest (best_match, best_similarity)
      | Some e \<Rightarrow>
          (case calculate_similarity (Some test_encoding) (Some e) of
             Inl err \<Rightarrow> Inl err
           | Inr similarity \<Rightarrow>
               if similarity > best_similarity \<and> similarity \<ge> tolerance * 100
               then find_best test_encoding tolerance rest (Some known_face, similarity)
               else find_best test_encoding tolerance rest (best_match, best_similarity)))"

text \<open>
  A gallery entry is a dictionary that holds the key \<^verbatim>\<open>'encoding'\<close>, hence never
  empty, so \<^verbatim>\<open>if best_match:\<close> asks whether an entry was chosen.
\<close>

definition recognize_face :: "encoding option \<Rightarrow> known_face list \<Rightarrow> real \<Rightarrow> py_error + pydict" where
  "recognize_face test_encoding known_encodings_dict tolerance =
     (case test_encoding of
        None \<Rightarrow> Inr no_match
      | Some te \<Rightarrow>
          if known_encodings_dict = [] then Inr no_match
          else
            (case find_best te tolerance known_encodings_dict (None, 0) of
               Inl err \<Rightarrow> Inl err
             | Inr (None, best_similarity) \<Rightarrow> Inr no_match
             | Inr (Some best_match, best_similarity) \<Rightarrow>
                 Inr (match_result best_match best_similarity)))"

text \<open>The score of a gallery entry against the probe, when the loop computes one.\<close>

definition scored :: "encoding \<Rightarrow> known_face \<Rightarrow> real \<Rightarrow> bool" where
  "scored test_encoding known_face s =
     (case encoding known_face of
        None \<Rightarrow> False
      | Some e \<Rightarrow> calculate_similarity (Some test_encoding) (Some e) = Inr s)"

subsection \<open>Sample gallery entries\<close>

text \<open>Entries used to run the search on concrete galleries.\<close>

definition face_a :: known_face where
  "face_a = \<lparr>encoding = Some [0], name = Some (PStr ''A''), criminal_id = Some (PInt 1),
             criminal_code = Some (PStr ''CR-1'')\<rparr>"

definition face_b :: known_face where
  "face_b = \<lparr>encoding = Some [0], name = Some (PStr ''B''), criminal_id = Some (PInt 2),
             criminal_code = Some (PStr ''CR-2'')\<rparr>"

definition face_far :: known_face where
  "face_far = \<lparr>encoding = Some [1], name = Some (PStr ''C''), criminal_id = Some (PInt 3),
             criminal_code = Some (PStr ''CR-3'')\<rparr>"

section \<open>Encoding extraction\<close>

text \<open>
  The crop handed to \<^verbatim>\<open>_create_face_encoding\<close> is an 8-bit single-channel image,
  a list of rows. A face region is a row \<open>(x, y, w, h)\<close> of the int32 array that
  \<^verbatim>\<open>detectMultiScale\<close> returns.
\<close>

type_synonym image = "8 word list list"

type_synonym rect = "32 word \<times> 32 word \<times> 32 word \<times> 32 word"

text \<open>
  \<^verbatim>\<open>cv2.calcHist([face_image], [0], None, [256], [0, 256])\<close>: bin \<open>i\<close> counts the
  pixels of intensity \<open>i\<close>.
\<close>

definition calcHist :: "image \<Rightarrow> real list" where
  "calcHist face_image =
     map (\<lambda>i. real (count_list (concat face_image) (of_nat i))) [0..<256]"

text \<open>
  \<^verbatim>\<open>cv2.normalize(hist, hist)\<close> with its defaults (L2 norm, alpha 1): every bin is
  scaled by \<open>1 / norm\<close>, and by 0 when the norm does not exceed DBL\_EPSILON.
\<close>

definition DBL_EPSILON :: real where
  "DBL_EPSILON = 1 / 2 ^ 52"

definition normalize_l2 :: "real list \<Rightarrow> real list" where
  "normalize_l2 hist =
     (let n = linalg_norm hist;
          scale = (if n > DBL_EPSILON then 1 / n else 0)
      in map (\<lambda>x. x * scale) hist)"

text \<open>
  The HOG descriptor is OpenCV's; \<^verbatim>\<open>hog.compute(face_image).flatten()\<close> is a
  parameter \<open>hog_compute\<close> of the model. The number of values it returns for one
  detection window is OpenCV's \<^verbatim>\<open>getDescriptorSize\<close>.
\<close>

definition hog_descriptor_size ::
  "nat \<times> nat \<Rightarrow> nat \<times> nat \<Rightarrow> nat \<times> nat \<Rightarrow> nat \<times> nat \<Rightarrow> nat \<Rightarrow> nat" where
  "hog_descriptor_size winSize blockSize blockStride cellSize nbins =
     nbins * (fst blockSize div fst cellSize) * (snd blockSize div snd cellSize)
       * ((fst winSize - fst blockSize) div fst blockStride + 1)
       * ((snd winSize - snd blockSize) div snd blockStride + 1)"

text \<open>The crop after \<^verbatim>\<open>cv2.resize(face_roi, (100, 100))\<close>.\<close>

definition canonical_crop :: "image \<Rightarrow> bool" where
  "canonical_crop face_image =
     (length face_image = 100 \<and> list_all (\<lambda>row. length row = 100) face_image)"

text \<open>
  \<^verbatim>\<open>_create_face_encoding\<close>:
  \<^verbatim>\<open>np.concatenate([hist[:64], hog_features[:64]])\<close>.
\<close>

definition create_face_encoding :: "(image \<Rightarrow> real list) \<Rightarrow> image \<Rightarrow> encoding" where
  "create_face_encoding hog_compute face_image =
     (let hist = normalize_l2 (calcHist face_image);
          hog_features = hog_compute face_image
      in take 64 hist @ take 64 hog_features)"

text \<open>
  The area of a region as a number, and the sort key \<^verbatim>\<open>f[2] * f[3]\<close> as numpy
  computes it: a product of two int32 values, which wraps around.
\<close>

definition region_area :: "rect \<Rightarrow> int" where
  "region_area f = (case f of (x, y, w, h) \<Rightarrow> sint w * sint h)"

definition area_key :: "rect \<Rightarrow> int" where
  "area_key f = (case f of (x, y, w, h) \<Rightarrow> sint (w * h))"

text \<open>
  \<^verbatim>\<open>sorted(faces, key=..., reverse=True)\<close>: descending by key, and stable, so
  entries of equal key keep their order. \<open>sort_key\<close> is a stable insertion sort.
\<close>

definition sorted_reverse :: "('a \<Rightarrow> int) \<Rightarrow> 'a list \<Rightarrow> 'a list" where
  "sorted_reverse key xs = sort_key (\<lambda>x. - key x) xs"

text \<open>Lines 70 to 73: the region \<^verbatim>\<open>faces[0]\<close> after the optional sort.\<close>

definition largest_face :: "rect list \<Rightarrow> rect" where
  "largest_face faces =
     hd (if length faces > 1 then sorted_reverse area_key faces else faces)"

text \<open>
  \<^verbatim>\<open>get_face_encoding_from_cv2\<close>. The detector, and the grey conversion, crop and
  resize of the chosen region (\<open>face_roi\<close>), are OpenCV's and are parameters.
\<close>

definition get_face_encoding_from_cv2 ::
  "('frame \<Rightarrow> rect list) \<Rightarrow> ('frame \<Rightarrow> rect \<Rightarrow> image) \<Rightarrow> (image \<Rightarrow> real list)
     \<Rightarrow> 'frame option \<Rightarrow> encoding option" where
  "get_face_encoding_from_cv2 detect_faces_opencv face_roi hog_compute frame =
     (case frame of
        None \<Rightarrow> None
      | Some fr \<Rightarrow>
          (let faces = detect_faces_opencv fr
           in if length faces = 0 then None
              else Some (create_face_encoding hog_compute (face_roi fr (largest_face faces)))))"

text \<open>Two regions, of areas 500 and 2000, a blank crop and a constant descriptor.\<close>

definition two_faces :: "rect list" where
  "two_faces = [(10, 10, 20, 25), (100, 50, 40, 50)]"

definition blank_crop :: image where
  "blank_crop = replicate 100 (replicate 100 0)"

definition zero_hog :: "image \<Rightarrow> real list" where
  "zero_hog img = replicate 2916 0"

section \<open>Batch processing\<close>

text \<open>
  \<^verbatim>\<open>BatchProcessor\<close> of \<^verbatim>\<open>src/core/batch_processor.py\<close>. Image paths are
  strings and error texts are strings, as the signals
  \<^verbatim>\<open>image_processed = pyqtSignal(str, list)\<close> and
  \<^verbatim>\<open>error_occurred = pyqtSignal(str, str)\<close> declare them. The value the search
  returns comes from the injected face engine and need not be a list:
  \<^item> \<open>PyList ms\<close> is a list;
  \<^item> \<open>Sized n text\<close> is a value that has a length \<open>n\<close> and is not a list (a
    tuple, say): \<^verbatim>\<open>image_processed.emit(img_path, matches)\<close> raises TypeError on it,
    with the text \<open>text\<close>;
  \<^item> \<open>Unsized text\<close> is a value without a length (None, say):
    \<^verbatim>\<open>len(matches)\<close> raises TypeError on it, with the text \<open>text\<close>.
\<close>

datatype matches_value =
    PyList "pydict list"
  | Sized nat string
  | Unsized string

text \<open>
  What a worker returns is the dictionary of \<^verbatim>\<open>_process_single_image\<close>: success
  with the value of the search, or failure with an error text.
\<close>

datatype worker_result = WorkerSuccess matches_value | WorkerFailure string

text \<open>
  What the processor calls and does not define: the validator of
  \<^verbatim>\<open>core/utils.py\<close>, which reads the file and answers \<open>(is_valid, message)\<close>
  without raising; the search method of the injected face engine, which returns a value or
  raises an exception (\<open>Inl\<close> of its text \<^verbatim>\<open>str(e)\<close>);
  \<^verbatim>\<open>Path(p).name\<close>; and the clock.
\<close>

record batch_env =
  validate_image_file :: "string \<Rightarrow> bool \<times> string"
  search_criminal_database :: "string \<Rightarrow> string + matches_value"
  path_name :: "string \<Rightarrow> string"
  now_isoformat :: string

text \<open>
  \<^verbatim>\<open>_process_single_image\<close>: every exception is caught and becomes a failure that
  carries the exception's text. The line a worker thread logs on the way is left out; its
  place among the events of the run depends on the timing of the threads.
\<close>

definition process_single_image :: "batch_env \<Rightarrow> string \<Rightarrow> worker_result" where
  "process_single_image env image_path =
     (case validate_image_file env image_path of
        (is_valid, message) \<Rightarrow>
          if \<not> is_valid then WorkerFailure (''Invalid image: '' @ message)
          else
            (case search_criminal_database env image_path of
               Inl e \<Rightarrow> WorkerFailure e
             | Inr matches \<Rightarrow> WorkerSuccess matches))"

text \<open>
  An entry of \<^verbatim>\<open>self.results\<close>: image path, matches and match count on success;
  image path and error text on failure.
\<close>

datatype batch_result =
    SuccessEntry string matches_value nat
  | FailureEntry string string

text \<open>
  The counters of \<^verbatim>\<open>run\<close> with the result list, and the summary dictionary that
  adds \<^verbatim>\<open>total\<close> and \<^verbatim>\<open>timestamp\<close> to them.
\<close>

record counters =
  processed :: nat
  successful :: nat
  failed :: nat
  total_matches :: nat
  results :: "batch_result list"

record summary = counters +
  total :: nat
  timestamp :: string

text \<open>The Qt signals the run emits and the lines it logs, in order.\<close>

datatype event =
    progress_updated nat nat string
  | image_processed string "pydict list"
  | batch_completed summary
  | error_occurred string string
  | log_info string
  | log_error string

text \<open>A number as an f-string prints it.\<close>

fun show_nat :: "nat \<Rightarrow> string" where
  "show_nat n =
     (if n < 10 then [''0123456789'' ! n]
      else show_nat (n div 10) @ [''0123456789'' ! (n mod 10)])"

declare show_nat.simps [simp del]

type_synonym loop_state = "counters \<times> event list"

text \<open>
  The clause \<^verbatim>\<open>except Exception as e\<close> of the loop body, lines 102 to 113, entered
  with the counters as the statements before the exception left them.
\<close>

definition except_clause :: "string \<Rightarrow> string \<Rightarrow> loop_state \<Rightarrow> loop_state" where
  "except_clause img_path error_msg st =
     ((fst st)\<lparr>failed := failed (fst st) + 1,
               results := results (fst st) @ [FailureEntry img_path error_msg]\<rparr>,
      snd st @ [log_error (''Error processing '' @ img_path @ '': '' @ error_msg),
                error_occurred img_path error_msg])"

text \<open>
  The body of the loop for one completed future, lines 58 to 113. \<open>result\<close> is what
  \<^verbatim>\<open>future.result()\<close> returns; it raises nothing, since the worker catches every
  exception. In the success branch \<^verbatim>\<open>successful += 1\<close> comes first; then
  \<^verbatim>\<open>len(matches)\<close> raises on a value without a length, and
  \<^verbatim>\<open>image_processed.emit\<close> raises on a value that is not a list, after the success
  entry has been appended. Either exception enters the except clause. In the failure
  branch every value is a string and nothing raises.
\<close>

definition handle_future ::
  "batch_env \<Rightarrow> nat \<Rightarrow> string \<Rightarrow> worker_result \<Rightarrow> loop_state \<Rightarrow> loop_state" where
  "handle_future env total_images img_path result st =
     (let c = (fst st)\<lparr>processed := processed (fst st) + 1\<rparr>; out = snd st in
      case result of
        WorkerSuccess matches \<Rightarrow>
          (let c1 = c\<lparr>successful := successful c + 1\<rparr> in
           case matches of
             Unsized len_error \<Rightarrow> except_clause img_path len_error (c1, out)
           | Sized n emit_error \<Rightarrow>
               except_clause img_path emit_error
                 (c1\<lparr>total_matches := total_matches c1 + n,
                      results := results c1 @ [SuccessEntry img_path matches n]\<rparr>,
                  out)
           | PyList ms \<Rightarrow>
               (c1\<lparr>total_matches := total_matches c1 + length ms,
                    results := results c1 @ [SuccessEntry img_path matches (length ms)]\<rparr>,
                out @ [image_processed img_path ms,
                       progress_updated (processed c) total_images
                         (''Processed: '' @ path_name env img_path @ '' - ''
                            @ show_nat (length ms) @ '' matches found'')]))
      | WorkerFailure error \<Rightarrow>
          (c\<lparr>failed := failed c + 1,
             results := results c @ [FailureEntry img_path error]\<rparr>,
           out @ [error_occurred img_path error,
                  progress_updated (processed c) total_images
                    (''Failed: '' @ path_name env img_path @ '' - '' @ error)]))"

text \<open>
  The loop over \<^verbatim>\<open>as_completed\<close>. \<open>completed\<close> lists the futures, by their index
  in \<^verbatim>\<open>image_paths\<close>, in the order in which they complete; \<open>is_cancelled k\<close> is
  the value of \<^verbatim>\<open>self.is_cancelled\<close> read at the check made when \<open>k\<close> futures have
  been handled (another thread sets it through \<^verbatim>\<open>cancel\<close>). The second component
  of the result tells that the loop was left by \<^verbatim>\<open>break\<close>. In a real run
  \<open>completed\<close> holds distinct indices below the number of paths.
\<close>

fun for_completed ::
  "batch_env \<Rightarrow> string list \<Rightarrow> (nat \<Rightarrow> bool) \<Rightarrow> nat list \<Rightarrow> nat \<Rightarrow> loop_state
     \<Rightarrow> loop_state \<times> bool" where
  "for_completed env image_paths is_cancelled [] k st = (st, False)"
| "for_completed env image_paths is_cancelled (future # rest) k st =
     (if is_cancelled k
      then ((fst st, snd st @ [log_info ''Batch processing cancelled'']), True)
      else for_completed env image_paths is_cancelled rest (Suc k)
             (handle_future env (length image_paths) (image_paths ! future)
                (process_single_image env (image_paths ! future)) st))"

text \<open>
  \<^verbatim>\<open>run\<close> on a processor as \<^verbatim>\<open>__init__\<close> leaves it (no results yet). All
  paths are submitted to the executor before the loop starts. When \<open>completed\<close> does not
  hold every future and the loop was not left by \<^verbatim>\<open>break\<close>,
  \<^verbatim>\<open>as_completed\<close> raises TimeoutError, which the outer handler reports without a
  summary.
\<close>

record batch_run =
  submitted :: "string list"
  emitted :: "event list"
  self_results :: "batch_result list"

definition run :: "batch_env \<Rightarrow> (nat \<Rightarrow> bool) \<Rightarrow> nat list \<Rightarrow> string list \<Rightarrow> batch_run" where
  "run env is_cancelled completed image_paths =
     (let total_images = length image_paths;
          start = (\<lparr>processed = 0, successful = 0, failed = 0, total_matches = 0, results = []\<rparr>,
                   [log_info (''Starting batch processing: '' @ show_nat total_images
                      @ '' images'')])
      in case for_completed env image_paths is_cancelled completed 0 start of
           ((c, out), broke) \<Rightarrow>
             if broke \<or> length completed = total_images
             then
               \<lparr>submitted = image_paths,
                emitted = out @
                  [batch_completed
                     \<lparr>processed = processed c, successful = successful c, failed = failed c,
                      total_matches = total_matches c, results = results c,
                      total = total_images, timestamp = now_isoformat env\<rparr>,
                   log_info (''Batch processing completed: '' @ show_nat (successful c)
                     @ '' successful, '' @ show_nat (failed c) @ '' failed'')],
                self_results = results c\<rparr>
             else
               (let e = show_nat (total_images - length completed) @ '' (of ''
                          @ show_nat total_images @ '') futures unfinished''
                in \<lparr>submitted = image_paths,
                    emitted = out @ [log_error (''Batch processing error: '' @ e),
                                     error_occurred ''Batch Process'' e],
                    self_results = results c\<rparr>))"

text \<open>The summaries carried by the \<^verbatim>\<open>batch_completed\<close> signals of a run.\<close>

fun summaries :: "event list \<Rightarrow> summary list" where
  "summaries [] = []"
| "summaries (batch_completed s # evs) = s # summaries evs"
| "summaries (ev # evs) = summaries evs"

definition summary_of :: "batch_run \<Rightarrow> summary option" where
  "summary_of r = (case summaries (emitted r) of [] \<Rightarrow> None | s # rest \<Rightarrow> Some s)"

fun entry_path :: "batch_result \<Rightarrow> string" where
  "entry_path (SuccessEntry img_path ms n) = img_path"
| "entry_path (FailureEntry img_path e) = img_path"

text \<open>
  What the run makes of one path: whether the worker succeeds; the text of the exception
  that handling its result raises, if it does; the matches added to
  \<^verbatim>\<open>total_matches\<close>; the first entry appended to the results; and all entries
  appended.
\<close>

definition succeeds :: "batch_env \<Rightarrow> string \<Rightarrow> bool" where
  "succeeds env image_path =
     (case process_single_image env image_path of
        WorkerSuccess ms \<Rightarrow> True
      | WorkerFailure e \<Rightarrow> False)"

definition handling_error :: "batch_env \<Rightarrow> string \<Rightarrow> string option" where
  "handling_error env image_path =
     (case process_single_image env image_path of
        WorkerSuccess (PyList ms) \<Rightarrow> None
      | WorkerSuccess (Sized n emit_error) \<Rightarrow> Some emit_error
      | WorkerSuccess (Unsized len_error) \<Rightarrow> Some len_error
      | WorkerFailure e \<Rightarrow> None)"

definition match_total :: "batch_env \<Rightarrow> string \<Rightarrow> nat" where
  "match_total env image_path =
     (case process_single_image env image_path of
        WorkerSuccess (PyList ms) \<Rightarrow> length ms
      | WorkerSuccess (Sized n emit_error) \<Rightarrow> n
      | WorkerSuccess (Unsized len_error) \<Rightarrow> 0
      | WorkerFailure e \<Rightarrow> 0)"

definition result_entry :: "batch_env \<Rightarrow> string \<Rightarrow> batch_result" where
  "result_entry env image_path =
     (case process_single_image env image_path of
        WorkerSuccess (PyList ms) \<Rightarrow> SuccessEntry image_path (PyList ms) (length ms)
      | WorkerSuccess (Sized n emit_error) \<Rightarrow> SuccessEntry image_path (Sized n emit_error) n
      | WorkerSuccess (Unsized len_error) \<Rightarrow> FailureEntry image_path len_error
      | WorkerFailure e \<Rightarrow> FailureEntry image_path e)"

definition result_entries :: "batch_env \<Rightarrow> string \<Rightarrow> batch_result list" where
  "result_entries env image_path =
     (case process_single_image env image_path of
        WorkerSuccess (Sized n emit_error) \<Rightarrow>
          [SuccessEntry image_path (Sized n emit_error) n, FailureEntry image_path emit_error]
      | other \<Rightarrow> [result_entry env image_path])"

text \<open>The futures the loop handles before it ends or breaks.\<close>

fun handled :: "(nat \<Rightarrow> bool) \<Rightarrow> nat list \<Rightarrow> nat \<Rightarrow> nat list" where
  "handled is_cancelled [] k = []"
| "handled is_cancelled (future # rest) k =
     (if is_cancelled k then [] else future # handled is_cancelled rest (Suc k))"

text \<open>Cancellation flags, sample environments and sample batches.\<close>

definition never_cancelled :: "nat \<Rightarrow> bool" where
  "never_cancelled k = False"

definition cancelled_after :: "nat \<Rightarrow> nat \<Rightarrow> bool" where
  "cancelled_after n k = (n \<le> k)"

definition sample_env :: batch_env where
  "sample_env =
     \<lparr>validate_image_file =
        (\<lambda>p. if p = ''img3.jpg'' then (False, ''Invalid or corrupted image file'')
             else (True, ''Valid image'')),
      search_criminal_database = (\<lambda>p. if p = ''img5.jpg'' then Inl [] else Inr (PyList [])),
      path_name = (\<lambda>p. p),
      now_isoformat = ''2024-01-01T00:00:00''\<rparr>"

text \<open>An engine whose search finds nothing and returns None.\<close>

definition none_env :: batch_env where
  "none_env =
     \<lparr>validate_image_file = (\<lambda>p. (True, ''Valid image'')),
      search_criminal_database =
        (\<lambda>p. Inr (Unsized ''object of type 'NoneType' has no len()'')),
      path_name = (\<lambda>p. p),
      now_isoformat = ''2024-01-01T00:00:00''\<rparr>"

definition five_images :: "string list" where
  "five_images = [''img1.jpg'', ''img2.jpg'', ''img3.jpg'', ''img4.jpg'', ''img6.jpg'']"

definition two_images :: "string list" where
  "two_images = [''a.jpg'', ''b.jpg'']"

text \<open>The summary after the futures \<open>hs\<close> have been handled.\<close>

definition summary_after ::
  "batch_env \<Rightarrow> string list \<Rightarrow> nat list \<Rightarrow> summary" where
  "summary_after env image_paths hs =
     \<lparr>processed = length hs,
      successful = length (filter (\<lambda>i. succeeds env (image_paths ! i)) hs),
      failed = length (filter (\<lambda>i. \<not> succeeds env (image_paths ! i)) hs)
             + length (filter (\<lambda>i. handling_error env (image_paths ! i) \<noteq> None) hs),
      total_matches = sum_list (map (\<lambda>i. match_total env (image_paths ! i)) hs),
      results = concat (map (\<lambda>i. result_entries env (image_paths ! i)) hs),
      total = length image_paths,
      timestamp = now_isoformat env\<rparr>"

section \<open>Properties of the gallery search\<close>

lemma find_best_result:
  assumes "find_best te tol g (bm, bs) = Inr (bm', bs')"
  shows "(bm' = bm \<and> bs' = bs \<and> (\<forall>k\<in>set g. \<forall>t. scored te k t \<longrightarrow> \<not> (bs < t \<and> tol * 100 \<le> t)))
       \<or> (\<exists>pre k post. g = pre @ k # post \<and> bm' = Some k \<and> scored te k bs' \<and> bs < bs' \<and> tol * 100 \<le> bs'
            \<and> (\<forall>j\<in>set pre. \<forall>t. scored te j t \<longrightarrow> t < bs')
            \<and> (\<forall>j\<in>set post. \<forall>t. scored te j t \<longrightarrow> t \<le> bs'))"
    (is "?same g bm bs \<or> ?found g bs")
  using assms
proof (induction g arbitrary: bm bs)
  case Nil
  then show ?case by simp
next
  case (Cons kf rest)
  have step: "?same (kf # rest) bm bs \<or> ?found (kf # rest) bs"
    if run: "find_best te tol rest (bm, bs) = Inr (bm', bs')"
    and low: "\<forall>t. scored te kf t \<longrightarrow> \<not> (bs < t \<and> tol * 100 \<le> t)"
  proof -
    from Cons.IH[OF run] show ?thesis
    proof
      assume "?same rest bm bs"
      then show ?thesis using low by auto
    next
      assume "?found rest bs"
      then obtain pre k post where h: "rest = pre @ k # post" "bm' = Some k"
        "scored te k bs'" "bs < bs'" "tol * 100 \<le> bs'"
        "\<forall>j\<in>set pre. \<forall>t. scored te j t \<longrightarrow> t < bs'"
        "\<forall>j\<in>set post. \<forall>t. scored te j t \<longrightarrow> t \<le> bs'"
        by blast
      have "kf # rest = (kf # pre) @ k # post" using h(1) by simp
      moreover have "\<forall>j\<in>set (kf # pre). \<forall>t. scored te j t \<longrightarrow> t < bs'"
        using h(4,5,6) low by fastforce
      ultimately have "?found (kf # rest) bs" using h(2,3,4,5,7) by blast
      then show ?thesis ..
    qed
  qed
  show ?case
  proof (cases "encoding kf")
    case None
    then have "find_best te tol rest (bm, bs) = Inr (bm', bs')" using Cons.prems by simp
    moreover have "\<forall>t. scored te kf t \<longrightarrow> \<not> (bs < t \<and> tol * 100 \<le> t)"
      using None by (simp add: scored_def)
    ultimately show ?thesis by (rule step)
  next
    case (Some e)
    then obtain s where s: "calculate_similarity (Some te) (Some e) = Inr s"
      using Cons.prems by (cases "calculate_similarity (Some te) (Some e)") auto
    have sc: "scored te kf t \<longleftrightarrow> t = s" for t
      using Some s by (auto simp: scored_def)
    show ?thesis
    proof (cases "s > bs \<and> s \<ge> tol * 100")
      case False
      then have "find_best te tol rest (bm, bs) = Inr (bm', bs')"
        using Cons.prems Some s by auto
      moreover have "\<forall>t. scored te kf t \<longrightarrow> \<not> (bs < t \<and> tol * 100 \<le> t)"
        using False sc by auto
      ultimately show ?thesis by (rule step)
    next
      case True
      then have run: "find_best te tol rest (Some kf, s) = Inr (bm', bs')"
        using Cons.prems Some s by auto
      from Cons.IH[OF run] show ?thesis
      proof
        assume a: "?same rest (Some kf) s"
        have "kf # rest = [] @ kf # rest" by simp
        moreover have "\<forall>j\<in>set rest. \<forall>t. scored te j t \<longrightarrow> t \<le> bs'"
          using a True by fastforce
        moreover have "scored te kf bs'" using a sc by simp
        ultimately have "?found (kf # rest) bs" using a True by fastforce
        then show ?thesis ..
      next
        assume "?found rest s"
        then obtain pre k post where h: "rest = pre @ k # post" "bm' = Some k"
          "scored te k bs'" "s < bs'" "tol * 100 \<le> bs'"
          "\<forall>j\<in>set pre. \<forall>t. scored te j t \<longrightarrow> t < bs'"
          "\<forall>j\<in>set post. \<forall>t. scored te j t \<longrightarrow> t \<le> bs'"
          by blast
        have "kf # rest = (kf # pre) @ k # post" using h(1) by simp
        moreover have "\<forall>j\<in>set (kf # pre). \<forall>t. scored te j t \<longrightarrow> t < bs'"
          using h(4,6) sc by auto
        moreover have "bs < bs'" using True h(4) by simp
        ultimately have "?found (kf # rest) bs" using h(2,3,5,7) by blast
        then show ?thesis ..
      qed
    qed
  qed
qed

lemma find_best_all_scored:
  "find_best te tol g st = Inr r \<Longrightarrow> encoding k = Some e \<Longrightarrow> k \<in> set g
     \<Longrightarrow> \<exists>s. calculate_similarity (Some te) (Some e) = Inr s"
proof (induction g arbitrary: st)
  case Nil
  then show ?case by simp
next
  case (Cons kf rest)
  obtain bm bs where st: "st = (bm, bs)" by (cases st)
  show ?case
  proof (cases "encoding kf")
    case None
    then show ?thesis using Cons st by auto
  next
    case (Some e')
    then obtain s where s: "calculate_similarity (Some te) (Some e') = Inr s"
      using Cons.prems(1) st by (cases "calculate_similarity (Some te) (Some e')") auto
    show ?thesis
    proof (cases "k = kf")
      case True
      then show ?thesis using Some s Cons.prems(2) by simp
    next
      case False
      then have "k \<in> set rest" using Cons.prems(3) by simp
      moreover have "\<exists>st'. find_best te tol rest st' = Inr r"
        using Cons.prems(1) st Some s by (auto split: if_splits)
      ultimately show ?thesis using Cons.IH Cons.prems(2) by blast
    qed
  qed
qed

lemma find_best_unchanged:
  "\<forall>k\<in>set g. \<forall>e. encoding k = Some e \<longrightarrow>
       (\<exists>s. calculate_similarity (Some te) (Some e) = Inr s \<and> \<not> (bs < s \<and> tol * 100 \<le> s))
   \<Longrightarrow> find_best te tol g (bm, bs) = Inr (bm, bs)"
proof (induction g)
  case Nil
  then show ?case by simp
next
  case (Cons kf rest)
  have rest: "find_best te tol rest (bm, bs) = Inr (bm, bs)"
    using Cons by simp
  show ?case
  proof (cases "encoding kf")
    case None
    then show ?thesis using rest by simp
  next
    case (Some e)
    then obtain s where "calculate_similarity (Some te) (Some e) = Inr s"
      "\<not> (bs < s \<and> tol * 100 \<le> s)"
      using Cons.prems by auto
    then show ?thesis using Some rest by auto
  qed
qed

lemma match_result_neq_no_match: "match_result k s \<noteq> no_match"
  by (simp add: match_result_def no_match_def)

lemma map_of_no_match: "map_of no_match ''matched'' = Some (PBool False)"
  by (simp add: no_match_def)

text \<open>
  C1. A matched result of \<^verbatim>\<open>recognize_face\<close> names a gallery entry whose
  similarity to the probe is at least \<open>tolerance * 100\<close> (60 with the default tolerance
  0.6); every entry before it in the gallery scores strictly less and every entry after
  it scores at most as much, so the first entry with the greatest score wins and a later
  equal score never replaces it. The reported confidence is that similarity, hence never
  below the threshold.
\<close>

theorem recognize_face_first_best:
  assumes "recognize_face test_encoding gallery tolerance = Inr r"
    and "map_of r ''matched'' = Some (PBool True)"
  shows "\<exists>te pre k post s.
           test_encoding = Some te \<and> gallery = pre @ k # post \<and> scored te k s
         \<and> tolerance * 100 \<le> s
         \<and> (\<forall>j\<in>set pre. \<forall>t. scored te j t \<longrightarrow> t < s)
         \<and> (\<forall>j\<in>set post. \<forall>t. scored te j t \<longrightarrow> t \<le> s)
         \<and> r = match_result k s
         \<and> map_of r ''confidence'' = Some (PFloat s)"
proof -
  have ne: "r \<noteq> no_match" using assms(2) map_of_no_match by auto
  then obtain te where te: "test_encoding = Some te"
    using assms(1) by (cases test_encoding) (auto simp: recognize_face_def)
  have g: "gallery \<noteq> []" using assms(1) ne te by (auto simp: recognize_face_def)
  obtain bm bs where fb: "find_best te tolerance gallery (None, 0) = Inr (bm, bs)"
    using assms(1) te g
    by (cases "find_best te tolerance gallery (None, 0)") (auto simp: recognize_face_def)
  then obtain k where k: "bm = Some k" "r = match_result k bs"
    using assms(1) ne te g by (cases bm) (auto simp: recognize_face_def)
  from find_best_result[OF fb] k(1)
  obtain pre k' post where h: "gallery = pre @ k' # post" "bm = Some k'"
      "scored te k' bs" "tolerance * 100 \<le> bs"
      "\<forall>j\<in>set pre. \<forall>t. scored te j t \<longrightarrow> t < bs"
      "\<forall>j\<in>set post. \<forall>t. scored te j t \<longrightarrow> t \<le> bs"
    by auto
  have "k' = k" using h(2) k(1) by simp
  moreover have "map_of r ''confidence'' = Some (PFloat bs)"
    using k(2) by (simp add: match_result_def)
  ultimately show ?thesis using te h k(2) by blast
qed

lemma similarity_same: "calculate_similarity (Some [0]) (Some [0]) = Inr 100"
  by (simp add: calculate_similarity_def np_subtract_def linalg_norm_def)

lemma similarity_far: "calculate_similarity (Some [0]) (Some [1]) = Inr 0"
  by (simp add: calculate_similarity_def np_subtract_def linalg_norm_def)

lemma recognize_tie: "recognize_face (Some [0]) [face_a, face_b] (6 / 10) = Inr (match_result face_a 100)"
  by (simp add: recognize_face_def face_a_def face_b_def similarity_same)

theorem recognize_face_first_best_witness:
  "recognize_face (Some [0]) [face_a, face_b] (6 / 10) = Inr (match_result face_a 100)
   \<and> map_of (match_result face_a 100) ''matched'' = Some (PBool True)
   \<and> (\<exists>te pre k post s.
           Some [0] = Some te \<and> [face_a, face_b] = pre @ k # post \<and> scored te k s
         \<and> (6 / 10) * 100 \<le> s
         \<and> (\<forall>j\<in>set pre. \<forall>t. scored te j t \<longrightarrow> t < s)
         \<and> (\<forall>j\<in>set post. \<forall>t. scored te j t \<longrightarrow> t \<le> s)
         \<and> match_result face_a 100 = match_result k s
         \<and> map_of (match_result face_a 100) ''confidence'' = Some (PFloat s))"
proof -
  have m: "map_of (match_result face_a 100) ''matched'' = Some (PBool True)"
    by (simp add: match_result_def)
  from recognize_face_first_best[OF recognize_tie m] recognize_tie m
  show ?thesis by simp
qed

text \<open>
  C2 (as amended). \<^verbatim>\<open>recognize_face\<close> returns the no-match dictionary exactly when
  the probe gave no encoding, or the gallery is empty, or every gallery entry that has an
  encoding was scored and none of these scores is both positive and at least
  \<open>tolerance * 100\<close>. Searching an empty gallery returns the no-match dictionary and
  raises nothing, whatever the probe.
\<close>

theorem recognize_face_no_match_iff:
  "(recognize_face test_encoding gallery tolerance = Inr no_match \<longleftrightarrow>
      test_encoding = None \<or> gallery = [] \<or>
      (\<exists>te. test_encoding = Some te \<and>
         (\<forall>k\<in>set gallery. \<forall>e. encoding k = Some e \<longrightarrow>
            (\<exists>s. calculate_similarity (Some te) (Some e) = Inr s
                 \<and> \<not> (0 < s \<and> tolerance * 100 \<le> s)))))
   \<and> recognize_face test_encoding [] tolerance = Inr no_match"
proof (intro conjI iffI)
  show "recognize_face test_encoding [] tolerance = Inr no_match"
    by (cases test_encoding) (simp_all add: recognize_face_def)
next
  assume nm: "recognize_face test_encoding gallery tolerance = Inr no_match"
  show "test_encoding = None \<or> gallery = [] \<or>
      (\<exists>te. test_encoding = Some te \<and>
         (\<forall>k\<in>set gallery. \<forall>e. encoding k = Some e \<longrightarrow>
            (\<exists>s. calculate_similarity (Some te) (Some e) = Inr s
                 \<and> \<not> (0 < s \<and> tolerance * 100 \<le> s))))"
  proof (cases test_encoding)
    case None
    then show ?thesis by simp
  next
    case (Some te)
    show ?thesis
    proof (cases "gallery = []")
      case True
      then show ?thesis by simp
    next
      case False
      obtain bm bs where fb: "find_best te tolerance gallery (None, 0) = Inr (bm, bs)"
        using nm Some False
        by (cases "find_best te tolerance gallery (None, 0)") (auto simp: recognize_face_def)
      have "bm = None"
        using nm Some False fb match_result_neq_no_match
        by (cases bm) (auto simp: recognize_face_def)
      with find_best_result[OF fb]
      have low: "\<forall>k\<in>set gallery. \<forall>t. scored te k t \<longrightarrow> \<not> (0 < t \<and> tolerance * 100 \<le> t)"
        by auto
      have "\<exists>s. calculate_similarity (Some te) (Some e) = Inr s
                 \<and> \<not> (0 < s \<and> tolerance * 100 \<le> s)"
        if kin: "k \<in> set gallery" and ke: "encoding k = Some e" for k e
      proof -
        obtain s where s: "calculate_similarity (Some te) (Some e) = Inr s"
          using find_best_all_scored[OF fb ke kin] by blast
        then have "scored te k s" using ke by (simp add: scored_def)
        then show ?thesis using low kin s by blast
      qed
      then show ?thesis using Some by blast
    qed
  qed
next
  assume "test_encoding = None \<or> gallery = [] \<or>
      (\<exists>te. test_encoding = Some te \<and>
         (\<forall>k\<in>set gallery. \<forall>e. encoding k = Some e \<longrightarrow>
            (\<exists>s. calculate_similarity (Some te) (Some e) = Inr s
                 \<and> \<not> (0 < s \<and> tolerance * 100 \<le> s))))"
  then consider "test_encoding = None" | "gallery = []"
    | te where "test_encoding = Some te"
        "\<forall>k\<in>set gallery. \<forall>e. encoding k = Some e \<longrightarrow>
            (\<exists>s. calculate_similarity (Some te) (Some e) = Inr s
                 \<and> \<not> (0 < s \<and> tolerance * 100 \<le> s))"
    by blast
  then show "recognize_face test_encoding gallery tolerance = Inr no_match"
  proof cases
    case 1
    then show ?thesis by (simp add: recognize_face_def)
  next
    case 2
    then show ?thesis by (cases test_encoding) (simp_all add: recognize_face_def)
  next
    case 3
    from find_best_unchanged[OF 3(2), of None]
    show ?thesis using 3(1) by (simp add: recognize_face_def)
  qed
qed

theorem recognize_face_no_match_iff_witness:
  "recognize_face (Some [0]) [face_far] (6 / 10) = Inr no_match
   \<and> recognize_face (Some [0]) [] (6 / 10) = Inr no_match"
proof -
  note t = recognize_face_no_match_iff[of "Some [0]" "[face_far]" "6 / 10"]
  have c: "\<forall>k\<in>set [face_far]. \<forall>e. encoding k = Some e \<longrightarrow>
            (\<exists>s. calculate_similarity (Some [0]) (Some e) = Inr s
                 \<and> \<not> (0 < s \<and> (6 / 10) * 100 \<le> s))"
    by (simp add: face_far_def similarity_far)
  have "recognize_face (Some [0]) [face_far] (6 / 10) = Inr no_match"
    using iffD2[OF conjunct1[OF t]] c by blast
  moreover have "recognize_face (Some [0]) [] (6 / 10) = Inr no_match"
    using conjunct2[OF t] .
  ultimately show ?thesis by simp
qed

text \<open>
  With tolerance 0 a gallery entry of similarity 0 reaches the threshold (0 \<ge> 0), the
  probe has an encoding and the gallery is not empty; the result is the no-match
  dictionary all the same, because the scan starts from \<^verbatim>\<open>best_similarity = 0.0\<close>
  and replaces it only by a strictly greater score.
\<close>

theorem recognize_face_zero_threshold_counterexample:
  "recognize_face (Some [0]) [face_far] 0 = Inr no_match
   \<and> Some [0] \<noteq> (None :: encoding option) \<and> [face_far] \<noteq> []
   \<and> face_far \<in> set [face_far] \<and> scored [0] face_far 0 \<and> (0::real) * 100 \<le> 0"
  by (simp add: recognize_face_def face_far_def similarity_far scored_def)

text \<open>
  C3 (as amended). When either argument is null, \<^verbatim>\<open>calculate_similarity\<close> returns
  0.0 and raises nothing. Two encodings of different lengths, neither of length one, do
  not give 0.0: the subtraction raises ValueError, which the function does not catch.
\<close>

theorem calculate_similarity_null_or_mismatch:
  "(encoding1 = None \<or> encoding2 = None \<longrightarrow> calculate_similarity encoding1 encoding2 = Inr 0)
   \<and> (\<forall>a b. encoding1 = Some a \<and> encoding2 = Some b \<and> length a \<noteq> length b
          \<and> length a \<noteq> 1 \<and> length b \<noteq> 1
        \<longrightarrow> calculate_similarity encoding1 encoding2 = Inl ValueError)"
  by (auto simp: calculate_similarity_def np_subtract_def split: option.splits)

theorem calculate_similarity_null_or_mismatch_witness:
  "calculate_similarity None (Some [1]) = Inr 0
   \<and> calculate_similarity (Some [1]) None = Inr 0
   \<and> calculate_similarity None None = Inr 0
   \<and> calculate_similarity (Some [0, 0]) (Some [0, 0, 0]) = Inl ValueError"
  using calculate_similarity_null_or_mismatch[of None "Some [1]"]
    calculate_similarity_null_or_mismatch[of "Some [1]" None]
    calculate_similarity_null_or_mismatch[of None None]
    calculate_similarity_null_or_mismatch[of "Some [0, 0]" "Some [0, 0, 0]"]
  by simp

text \<open>
  Encodings of lengths 2 and 3 are mismatched, and the result is not the score 0.
\<close>

theorem calculate_similarity_mismatch_counterexample:
  "length [0, 0 :: real] \<noteq> length [0, 0, 0 :: real]
   \<and> calculate_similarity (Some [0, 0]) (Some [0, 0, 0]) \<noteq> Inr 0"
  by (simp add: calculate_similarity_def np_subtract_def)

text \<open>
  C10. \<^verbatim>\<open>recognize_face\<close> returns the same dictionary, matched false, name
  "Unknown", confidence 0.0 and criminal\_id null, when the probe gave no encoding and
  when the gallery is empty, so the returned value does not tell the two apart.
\<close>

theorem recognize_face_no_face_equals_empty_gallery:
  "recognize_face None gallery tolerance =
     Inr [(''matched'', PBool False), (''name'', PStr ''Unknown''),
          (''confidence'', PFloat 0), (''criminal_id'', PNone)]
   \<and> recognize_face (Some te) [] tolerance' =
     Inr [(''matched'', PBool False), (''name'', PStr ''Unknown''),
          (''confidence'', PFloat 0), (''criminal_id'', PNone)]"
  by (simp add: recognize_face_def no_match_def)

section \<open>Properties of encoding extraction\<close>

lemma hog_descriptor_size_face: "hog_descriptor_size (100, 100) (20, 20) (10, 10) (10, 10) 9 = 2916"
  by (simp add: hog_descriptor_size_def)

lemma length_calcHist: "length (calcHist img) = 256"
  by (simp add: calcHist_def)

lemma length_normalize_l2: "length (normalize_l2 h) = length h"
  by (simp add: normalize_l2_def Let_def)

lemma hd_insort_key:
  "hd (insort_key k x ys) = (if ys = [] \<or> k x \<le> k (hd ys) then x else hd ys)"
  by (cases ys) auto

lemma hd_sort_key_first_least:
  "xs \<noteq> [] \<Longrightarrow>
     \<exists>pre r post. xs = pre @ r # post \<and> hd (sort_key k xs) = r
       \<and> (\<forall>f\<in>set pre. k r < k f) \<and> (\<forall>f\<in>set post. k r \<le> k f)"
proof (induction xs)
  case Nil
  then show ?case by simp
next
  case (Cons x xs)
  show ?case
  proof (cases "xs = []")
    case True
    then have "x # xs = [] @ x # []" "hd (sort_key k (x # xs)) = x" by simp_all
    then show ?thesis by (metis empty_iff empty_set)
  next
    case False
    from Cons.IH[OF False] obtain pre r post where h: "xs = pre @ r # post"
      "hd (sort_key k xs) = r" "\<forall>f\<in>set pre. k r < k f" "\<forall>f\<in>set post. k r \<le> k f"
      by blast
    have ne: "sort_key k xs \<noteq> []" using False by (metis length_0_conv length_sort)
    have hd: "hd (sort_key k (x # xs)) = (if k x \<le> k r then x else r)"
      using ne h(2) by (simp add: hd_insort_key)
    show ?thesis
    proof (cases "k x \<le> k r")
      case True
      have "\<forall>f\<in>set xs. k x \<le> k f" using True h(1,3,4) by fastforce
      moreover have "x # xs = [] @ x # xs" by simp
      moreover have "hd (sort_key k (x # xs)) = x" using hd True by simp
      ultimately show ?thesis by (metis empty_iff empty_set)
    next
      case False
      have "x # xs = (x # pre) @ r # post" using h(1) by simp
      moreover have "hd (sort_key k (x # xs)) = r" using hd False by simp
      moreover have "\<forall>f\<in>set (x # pre). k r < k f" using False h(3) by auto
      ultimately show ?thesis using h(4) by blast
    qed
  qed
qed

lemma sint_mult_no_wrap:
  fixes w h :: "32 word"
  assumes "0 \<le> sint w * sint h" "sint w * sint h < 2 ^ 31"
  shows "sint (w * h) = sint w * sint h"
  using assms by (simp add: sint_word_ariths signed_take_bit_int_eq_self)

lemma area_key_no_wrap:
  assumes "0 \<le> region_area f" "region_area f < 2 ^ 31"
  shows "area_key f = region_area f"
proof -
  obtain x y w h where f: "f = (x, y, w, h)" by (cases f) auto
  show ?thesis using assms sint_mult_no_wrap[of w h]
    by (simp add: f area_key_def region_area_def)
qed

lemma largest_face_first_largest:
  assumes ne: "faces \<noteq> []"
    and fit: "\<forall>f\<in>set faces. 0 \<le> region_area f \<and> region_area f < 2 ^ 31"
  shows "\<exists>pre r post. faces = pre @ r # post \<and> largest_face faces = r
           \<and> (\<forall>f\<in>set pre. region_area f < region_area r)
           \<and> (\<forall>f\<in>set post. region_area f \<le> region_area r)"
proof (cases "length faces > 1")
  case False
  then obtain r where r: "faces = [r]" using ne
    by (cases faces) auto
  then have "faces = [] @ r # []" "largest_face faces = r"
    by (simp_all add: largest_face_def)
  then show ?thesis by (metis empty_iff empty_set)
next
  case True
  from hd_sort_key_first_least[OF ne, of "\<lambda>x. - area_key x"]
  obtain pre r post where h: "faces = pre @ r # post"
    "hd (sort_key (\<lambda>x. - area_key x) faces) = r"
    "\<forall>f\<in>set pre. - area_key r < - area_key f"
    "\<forall>f\<in>set post. - area_key r \<le> - area_key f"
    by blast
  have key: "area_key f = region_area f" if "f \<in> set faces" for f
    using fit that area_key_no_wrap by blast
  have "largest_face faces = r"
    using True h(2) by (simp add: largest_face_def sorted_reverse_def)
  moreover have "\<forall>f\<in>set pre. region_area f < region_area r"
    using h(1,3) key by fastforce
  moreover have "\<forall>f\<in>set post. region_area f \<le> region_area r"
    using h(1,4) key by fastforce
  ultimately show ?thesis using h(1) by blast
qed

text \<open>
  C4. For a 100x100 crop, on which the HOG descriptor has
  \<open>hog_descriptor_size (100, 100) (20, 20) (10, 10) (10, 10) 9 = 2916\<close> values,
  \<^verbatim>\<open>_create_face_encoding\<close> returns 128 elements: the first 64 are the first 64 bins
  of the L2-normalised 256-bin histogram and the last 64 are the first 64 values of the HOG
  descriptor. Every encoding that \<^verbatim>\<open>get_face_encoding_from_cv2\<close> returns is built
  from such a crop, so it has length 128.
\<close>

theorem create_face_encoding_length_128:
  assumes hog: "\<forall>img. canonical_crop img \<longrightarrow>
      length (hog_compute img) = hog_descriptor_size (100, 100) (20, 20) (10, 10) (10, 10) 9"
  shows "(canonical_crop face_image \<longrightarrow>
            length (create_face_encoding hog_compute face_image) = 128
          \<and> take 64 (create_face_encoding hog_compute face_image)
              = take 64 (normalize_l2 (calcHist face_image))
          \<and> length (normalize_l2 (calcHist face_image)) = 256
          \<and> drop 64 (create_face_encoding hog_compute face_image)
              = take 64 (hog_compute face_image))
       \<and> ((\<forall>fr r. canonical_crop (face_roi fr r))
            \<and> get_face_encoding_from_cv2 detect_faces_opencv face_roi hog_compute frame = Some enc
          \<longrightarrow> length enc = 128)"
proof -
  have one: "length (create_face_encoding hog_compute img) = 128
          \<and> take 64 (create_face_encoding hog_compute img) = take 64 (normalize_l2 (calcHist img))
          \<and> length (normalize_l2 (calcHist img)) = 256
          \<and> drop 64 (create_face_encoding hog_compute img) = take 64 (hog_compute img)"
    if c: "canonical_crop img" for img
  proof -
    have h: "length (hog_compute img) = 2916"
      using hog c hog_descriptor_size_face by simp
    have n: "length (normalize_l2 (calcHist img)) = 256"
      by (simp add: length_normalize_l2 length_calcHist)
    show ?thesis using h n by (simp add: create_face_encoding_def Let_def)
  qed
  have "length enc = 128"
    if roi: "\<forall>fr r. canonical_crop (face_roi fr r)"
    and e: "get_face_encoding_from_cv2 detect_faces_opencv face_roi hog_compute frame = Some enc"
  proof -
    from e obtain fr where "frame = Some fr"
      "enc = create_face_encoding hog_compute (face_roi fr (largest_face (detect_faces_opencv fr)))"
      by (cases frame) (auto simp: get_face_encoding_from_cv2_def Let_def split: if_splits)
    then show ?thesis using one roi by blast
  qed
  then show ?thesis using one by blast
qed

lemma canonical_blank_crop: "canonical_crop blank_crop"
  by (simp add: canonical_crop_def blank_crop_def list_all_length)

theorem create_face_encoding_length_128_witness:
  "canonical_crop blank_crop
   \<and> length (zero_hog blank_crop) = hog_descriptor_size (100, 100) (20, 20) (10, 10) (10, 10) 9
   \<and> length (create_face_encoding zero_hog blank_crop) = 128
   \<and> take 64 (create_face_encoding zero_hog blank_crop) = take 64 (normalize_l2 (calcHist blank_crop))
   \<and> drop 64 (create_face_encoding zero_hog blank_crop) = take 64 (zero_hog blank_crop)
   \<and> get_face_encoding_from_cv2 (\<lambda>fr :: unit. two_faces) (\<lambda>fr r. blank_crop) zero_hog (Some ())
       = Some (create_face_encoding zero_hog blank_crop)"
proof -
  have hog: "\<forall>img. canonical_crop img \<longrightarrow>
      length (zero_hog img) = hog_descriptor_size (100, 100) (20, 20) (10, 10) (10, 10) 9"
    by (simp add: zero_hog_def hog_descriptor_size_def)
  have g: "get_face_encoding_from_cv2 (\<lambda>fr :: unit. two_faces) (\<lambda>fr r. blank_crop) zero_hog (Some ())
       = Some (create_face_encoding zero_hog blank_crop)"
    by (simp add: get_face_encoding_from_cv2_def two_faces_def)
  note t = create_face_encoding_length_128[OF hog,
      where face_image = blank_crop and face_roi = "\<lambda>fr r. blank_crop"
        and detect_faces_opencv = "\<lambda>fr :: unit. two_faces" and frame = "Some ()"
        and enc = "create_face_encoding zero_hog blank_crop"]
  have "length (create_face_encoding zero_hog blank_crop) = 128
      \<and> take 64 (create_face_encoding zero_hog blank_crop)
          = take 64 (normalize_l2 (calcHist blank_crop))
      \<and> length (normalize_l2 (calcHist blank_crop)) = 256
      \<and> drop 64 (create_face_encoding zero_hog blank_crop) = take 64 (zero_hog blank_crop)"
    using conjunct1[OF t] canonical_blank_crop by blast
  moreover have "length (zero_hog blank_crop)
      = hog_descriptor_size (100, 100) (20, 20) (10, 10) (10, 10) 9"
    using hog canonical_blank_crop by blast
  ultimately show ?thesis using canonical_blank_crop g by simp
qed

text \<open>
  C5. When the detector returns one or more regions, each of an area below \<open>2 ^ 31\<close>
  (so that the int32 product \<^verbatim>\<open>f[2] * f[3]\<close> is the area),
  \<^verbatim>\<open>get_face_encoding_from_cv2\<close> encodes the crop of one region \<open>r\<close> of the list:
  every region before \<open>r\<close> is strictly smaller and every region after it is at most as
  large. So the region of largest area is encoded, the first such one on a tie. For regions
  of areas 500 and 2000 it is the region of area 2000.
\<close>

theorem get_face_encoding_largest_region:
  assumes "detect_faces_opencv fr = faces" and "faces \<noteq> []"
    and "\<forall>f\<in>set faces. 0 \<le> region_area f \<and> region_area f < 2 ^ 31"
  shows "\<exists>pre r post. faces = pre @ r # post
           \<and> (\<forall>f\<in>set pre. region_area f < region_area r)
           \<and> (\<forall>f\<in>set post. region_area f \<le> region_area r)
           \<and> get_face_encoding_from_cv2 detect_faces_opencv face_roi hog_compute (Some fr)
               = Some (create_face_encoding hog_compute (face_roi fr r))"
proof -
  from largest_face_first_largest[OF assms(2,3)]
  obtain pre r post where h: "faces = pre @ r # post" "largest_face faces = r"
    "\<forall>f\<in>set pre. region_area f < region_area r"
    "\<forall>f\<in>set post. region_area f \<le> region_area r"
    by blast
  have "get_face_encoding_from_cv2 detect_faces_opencv face_roi hog_compute (Some fr)
               = Some (create_face_encoding hog_compute (face_roi fr r))"
    using assms(1,2) h(2) by (simp add: get_face_encoding_from_cv2_def)
  then show ?thesis using h by blast
qed

lemma largest_of_two_faces: "largest_face two_faces = (100, 50, 40, 50)"
  by (simp add: largest_face_def two_faces_def sorted_reverse_def area_key_def)

lemma areas_of_two_faces: "map region_area two_faces = [500, 2000]"
  by (simp add: two_faces_def region_area_def)

theorem get_face_encoding_largest_region_witness:
  "map region_area two_faces = [500, 2000]
   \<and> largest_face two_faces = (100, 50, 40, 50)
   \<and> region_area (100, 50, 40, 50) = 2000
   \<and> get_face_encoding_from_cv2 (\<lambda>fr :: unit. two_faces) (\<lambda>fr r. blank_crop) zero_hog (Some ())
       = Some (create_face_encoding zero_hog (blank_crop))
   \<and> (\<exists>pre r post. two_faces = pre @ r # post
           \<and> (\<forall>f\<in>set pre. region_area f < region_area r)
           \<and> (\<forall>f\<in>set post. region_area f \<le> region_area r)
           \<and> get_face_encoding_from_cv2 (\<lambda>fr :: unit. two_faces) (\<lambda>fr r. blank_crop) zero_hog (Some ())
               = Some (create_face_encoding zero_hog ((\<lambda>fr r. blank_crop) () r)))"
proof -
  have fit: "\<forall>f\<in>set two_faces. 0 \<le> region_area f \<and> region_area f < 2 ^ 31"
    by (simp add: two_faces_def region_area_def)
  have ne: "two_faces \<noteq> []" by (simp add: two_faces_def)
  have a: "region_area (100, 50, 40, 50) = 2000" by (simp add: region_area_def)
  have d: "(\<lambda>fr :: unit. two_faces) () = two_faces" by simp
  note t = get_face_encoding_largest_region[
      where detect_faces_opencv = "\<lambda>fr :: unit. two_faces" and fr = "()"
        and faces = two_faces and face_roi = "\<lambda>fr r. blank_crop" and hog_compute = zero_hog,
      OF d ne fit]
  have g: "get_face_encoding_from_cv2 (\<lambda>fr :: unit. two_faces) (\<lambda>fr r. blank_crop) zero_hog (Some ())
       = Some (create_face_encoding zero_hog blank_crop)"
    by (simp add: get_face_encoding_from_cv2_def two_faces_def)
  show ?thesis
    using t areas_of_two_faces largest_of_two_faces a g by blast
qed

section \<open>Properties of batch processing\<close>

lemma summaries_append: "summaries (xs @ ys) = summaries xs @ summaries ys"
  by (induction xs rule: summaries.induct) auto

lemma handle_future_worker:
  assumes "handle_future env n p (process_single_image env p) (c, out) = (c', out')"
  shows "processed c' = processed c + 1
   \<and> successful c' = successful c + (if succeeds env p then 1 else 0)
   \<and> failed c' = failed c + (if succeeds env p then 0 else 1)
        + (if handling_error env p \<noteq> None then 1 else 0)
   \<and> total_matches c' = total_matches c + match_total env p
   \<and> results c' = results c @ result_entries env p
   \<and> summaries out' = summaries out
   \<and> (\<exists>evs. out' = out @ evs)"
proof (cases "process_single_image env p")
  case (WorkerFailure e)
  then show ?thesis using assms
    by (auto simp: handle_future_def succeeds_def handling_error_def match_total_def
        result_entry_def result_entries_def Let_def summaries_append)
next
  case (WorkerSuccess m)
  then show ?thesis using assms
    by (cases m)
       (auto simp: handle_future_def except_clause_def succeeds_def handling_error_def
          match_total_def result_entry_def result_entries_def Let_def summaries_append)
qed

lemma for_completed_result:
  "for_completed env paths flag completed k (c, out) = ((c', out'), broke) \<Longrightarrow>
     processed c' = processed c + length (handled flag completed k)
   \<and> successful c' = successful c
        + length (filter (\<lambda>i. succeeds env (paths ! i)) (handled flag completed k))
   \<and> failed c' = failed c
        + length (filter (\<lambda>i. \<not> succeeds env (paths ! i)) (handled flag completed k))
        + length (filter (\<lambda>i. handling_error env (paths ! i) \<noteq> None)
            (handled flag completed k))
   \<and> total_matches c' = total_matches c
        + sum_list (map (\<lambda>i. match_total env (paths ! i)) (handled flag completed k))
   \<and> results c' = results c
        @ concat (map (\<lambda>i. result_entries env (paths ! i)) (handled flag completed k))
   \<and> summaries out' = summaries out
   \<and> broke = (length (handled flag completed k) < length completed)
   \<and> (\<exists>evs. out' = out @ evs @ (if broke then [log_info ''Batch processing cancelled''] else []))"
proof (induction completed arbitrary: k c out)
  case Nil
  then show ?case by simp
next
  case (Cons i rest)
  show ?case
  proof (cases "flag k")
    case True
    then show ?thesis using Cons.prems by (auto simp: summaries_append)
  next
    case False
    obtain c1 out1 where h: "handle_future env (length paths) (paths ! i)
        (process_single_image env (paths ! i)) (c, out) = (c1, out1)"
      by (cases "handle_future env (length paths) (paths ! i)
        (process_single_image env (paths ! i)) (c, out)") auto
    then have r: "for_completed env paths flag rest (Suc k) (c1, out1) = ((c', out'), broke)"
      using Cons.prems False by simp
    note a = handle_future_worker[OF h]
    note b = Cons.IH[OF r]
    from a obtain evs1 where e1: "out1 = out @ evs1" by blast
    from b obtain evs2 where e2: "out' = out1 @ evs2
        @ (if broke then [log_info ''Batch processing cancelled''] else [])" by blast
    have "out' = out @ (evs1 @ evs2)
        @ (if broke then [log_info ''Batch processing cancelled''] else [])"
      using e1 e2 by simp
    then have ex: "\<exists>evs. out' = out @ evs
        @ (if broke then [log_info ''Batch processing cancelled''] else [])" by blast
    show ?thesis using a b ex False by simp
  qed
qed

lemma handled_never: "\<forall>j. \<not> flag j \<Longrightarrow> handled flag completed k = completed"
  by (induction completed arbitrary: k) auto

lemma handled_first:
  "flag (k + n) \<Longrightarrow> \<forall>j<n. \<not> flag (k + j) \<Longrightarrow> n < length completed
     \<Longrightarrow> handled flag completed k = take n completed"
proof (induction completed arbitrary: k n)
  case Nil
  then show ?case by simp
next
  case (Cons i rest)
  show ?case
  proof (cases n)
    case 0
    then show ?thesis using Cons.prems by simp
  next
    case (Suc m)
    have "\<not> flag k" using Cons.prems(2) Suc by (metis add.right_neutral zero_less_Suc)
    moreover have "handled flag rest (Suc k) = take m rest"
    proof (rule Cons.IH)
      show "flag (Suc k + m)" using Cons.prems(1) Suc by simp
      show "\<forall>j<m. \<not> flag (Suc k + j)"
        using Cons.prems(2) Suc by (metis Suc_less_eq add_Suc_shift)
      show "m < length rest" using Cons.prems(3) Suc by simp
    qed
    ultimately show ?thesis using Suc by simp
  qed
qed

lemma handled_prefix:
  "handled flag completed k = take (length (handled flag completed k)) completed"
  by (induction completed arbitrary: k) auto

lemma length_handled: "length (handled flag completed k) \<le> length completed"
  by (induction completed arbitrary: k) auto

lemma run_unfold:
  obtains c out broke where
    "for_completed env paths flag completed 0
       (\<lparr>processed = 0, successful = 0, failed = 0, total_matches = 0, results = []\<rparr>,
        [log_info (''Starting batch processing: '' @ show_nat (length paths) @ '' images'')])
     = ((c, out), broke)"
    "broke = (length (handled flag completed 0) < length completed)"
    "summaries out = []"
    "\<lparr>processed = processed c, successful = successful c, failed = failed c,
      total_matches = total_matches c, results = results c,
      total = length paths, timestamp = now_isoformat env\<rparr>
     = summary_after env paths (handled flag completed 0)"
    "\<exists>evs. out = evs @ (if broke then [log_info ''Batch processing cancelled''] else [])"
proof -
  let ?start = "(\<lparr>processed = 0, successful = 0, failed = 0, total_matches = 0, results = []\<rparr>,
        [log_info (''Starting batch processing: '' @ show_nat (length paths) @ '' images'')])"
  obtain c out broke where fc:
    "for_completed env paths flag completed 0 ?start = ((c, out), broke)"
    by (metis surj_pair)
  note r = for_completed_result[OF fc]
  have 1: "broke = (length (handled flag completed 0) < length completed)" using r by simp
  have 2: "summaries out = []" using r by simp
  have 3: "\<lparr>processed = processed c, successful = successful c, failed = failed c,
      total_matches = total_matches c, results = results c,
      total = length paths, timestamp = now_isoformat env\<rparr>
     = summary_after env paths (handled flag completed 0)"
    using r by (simp add: summary_after_def)
  from r obtain evs where "out = [log_info (''Starting batch processing: ''
        @ show_nat (length paths) @ '' images'')] @ evs
        @ (if broke then [log_info ''Batch processing cancelled''] else [])"
    by blast
  then have 4: "\<exists>evs. out = evs @ (if broke then [log_info ''Batch processing cancelled''] else [])"
    by (metis append.assoc)
  show ?thesis using that[OF fc 1 2 3 4] .
qed

lemma run_summary:
  "summary_of (run env flag completed paths) =
     (if length (handled flag completed 0) < length completed \<or> length completed = length paths
      then Some (summary_after env paths (handled flag completed 0))
      else None)"
proof -
  obtain c out broke where h:
    "for_completed env paths flag completed 0
       (\<lparr>processed = 0, successful = 0, failed = 0, total_matches = 0, results = []\<rparr>,
        [log_info (''Starting batch processing: '' @ show_nat (length paths) @ '' images'')])
     = ((c, out), broke)"
    "broke = (length (handled flag completed 0) < length completed)"
    "summaries out = []"
    "\<lparr>processed = processed c, successful = successful c, failed = failed c,
      total_matches = total_matches c, results = results c,
      total = length paths, timestamp = now_isoformat env\<rparr>
     = summary_after env paths (handled flag completed 0)"
    by (rule run_unfold)
  show ?thesis
    using h by (simp add: run_def summary_of_def Let_def summaries_append)
qed

lemma run_submitted: "submitted (run env flag completed paths) = paths"
  by (simp add: run_def Let_def split: prod.splits)

lemma run_cancelled_emitted:
  assumes "length (handled flag completed 0) < length completed"
  shows "\<exists>evs. emitted (run env flag completed paths) =
     evs @ [log_info ''Batch processing cancelled'',
            batch_completed (summary_after env paths (handled flag completed 0)),
            log_info (''Batch processing completed: ''
              @ show_nat (successful (summary_after env paths (handled flag completed 0)))
              @ '' successful, ''
              @ show_nat (failed (summary_after env paths (handled flag completed 0)))
              @ '' failed'')]"
proof -
  obtain c out broke where h:
    "for_completed env paths flag completed 0
       (\<lparr>processed = 0, successful = 0, failed = 0, total_matches = 0, results = []\<rparr>,
        [log_info (''Starting batch processing: '' @ show_nat (length paths) @ '' images'')])
     = ((c, out), broke)"
    "broke = (length (handled flag completed 0) < length completed)"
    "summaries out = []"
    "\<lparr>processed = processed c, successful = successful c, failed = failed c,
      total_matches = total_matches c, results = results c,
      total = length paths, timestamp = now_isoformat env\<rparr>
     = summary_after env paths (handled flag completed 0)"
    "\<exists>evs. out = evs @ (if broke then [log_info ''Batch processing cancelled''] else [])"
    by (rule run_unfold)
  have b: broke using h(2) assms by simp
  then obtain evs where o: "out = evs @ [log_info ''Batch processing cancelled'']"
    using h(5) by auto
  have s: "successful c = successful (summary_after env paths (handled flag completed 0))"
    "failed c = failed (summary_after env paths (handled flag completed 0))"
    using arg_cong[OF h(4), of successful] arg_cong[OF h(4), of failed] by simp_all
  show ?thesis
    using h(1,4) b o s by (simp add: run_def Let_def)
qed

lemma summary_of_run_cases:
  assumes "summary_of (run env flag completed paths) = Some s"
  shows "s = summary_after env paths (handled flag completed 0)"
  using assms by (simp add: run_summary split: if_splits)

lemma length_filter_nth_upt:
  "length (filter (\<lambda>i. P (xs ! i)) [0..<length xs]) = length (filter P xs)"
proof -
  have "length (filter P (map (\<lambda>i. xs ! i) [0..<length xs]))
      = length (filter (\<lambda>i. P (xs ! i)) [0..<length xs])"
    by (simp add: filter_map comp_def)
  then show ?thesis by (simp add: map_nth)
qed

lemma length_filter_permutation:
  assumes "mset completed = mset [0..<length xs]"
  shows "length (filter (\<lambda>i. P (xs ! i)) completed) = length (filter P xs)"
proof -
  have "mset (filter (\<lambda>i. P (xs ! i)) completed)
      = mset (filter (\<lambda>i. P (xs ! i)) [0..<length xs])"
    using arg_cong[OF assms, of "filter_mset (\<lambda>i. P (xs ! i))"]
    by (simp only: mset_filter)
  then have "length (filter (\<lambda>i. P (xs ! i)) completed)
      = length (filter (\<lambda>i. P (xs ! i)) [0..<length xs])"
    by (metis size_mset)
  then show ?thesis by (simp add: length_filter_nth_upt)
qed

lemma entry_path_result_entries: "e \<in> set (result_entries env p) \<Longrightarrow> entry_path e = p"
  by (auto simp: result_entries_def result_entry_def
      split: worker_result.splits matches_value.splits)

lemma result_entries_single:
  "handling_error env p = None \<Longrightarrow> result_entries env p = [result_entry env p]"
  by (auto simp: result_entries_def handling_error_def
      split: worker_result.splits matches_value.splits)

lemma entry_path_result_entry: "entry_path (result_entry env p) = p"
  by (auto simp: result_entry_def split: worker_result.splits matches_value.splits)

lemma concat_result_entries_single:
  "\<forall>i\<in>set hs. handling_error env (paths ! i) = None \<Longrightarrow>
     concat (map (\<lambda>i. result_entries env (paths ! i)) hs)
       = map (\<lambda>i. result_entry env (paths ! i)) hs"
  by (induction hs) (simp_all add: result_entries_single)

lemma no_handling_error_filter:
  "\<forall>i\<in>set hs. handling_error env (paths ! i) = None \<Longrightarrow>
     filter (\<lambda>i. handling_error env (paths ! i) \<noteq> None) hs = []"
  by (induction hs) simp_all

lemma summary_counters_when_lists:
  assumes "summary_of (run env is_cancelled completed image_paths) = Some s"
    and "\<forall>i\<in>set completed. handling_error env (image_paths ! i) = None"
  shows "processed s = successful s + failed s \<and> total s = length image_paths"
proof -
  let ?hs = "handled is_cancelled completed 0"
  have s: "s = summary_after env image_paths ?hs"
    using assms(1) by (rule summary_of_run_cases)
  have "set ?hs \<subseteq> set completed"
    using handled_prefix[of is_cancelled completed 0] by (metis set_take_subset)
  then have "\<forall>i\<in>set ?hs. handling_error env (image_paths ! i) = None"
    using assms(2) by blast
  then have "filter (\<lambda>i. handling_error env (image_paths ! i) \<noteq> None) ?hs = []"
    by (rule no_handling_error_filter)
  then show ?thesis
    unfolding s summary_after_def
    by (simp add: sum_length_filter_compl)
qed

text \<open>
  C9 (code bug). With an engine whose search returns None for a valid image, the run over
  one image emits a summary with processed 1, successful 1 and failed 1: the success
  branch has counted the item when \<^verbatim>\<open>len(matches)\<close> raises, and the except clause
  counts it again as failed. In that summary \<open>processed = successful + failed\<close> does not
  hold.
\<close>

theorem summary_counters_double_count:
  "summary_of (run none_env never_cancelled [0] [''img1.jpg'']) =
     Some \<lparr>processed = 1, successful = 1, failed = 1, total_matches = 0,
           results = [FailureEntry ''img1.jpg'' ''object of type 'NoneType' has no len()''],
           total = 1, timestamp = ''2024-01-01T00:00:00''\<rparr>"
  by (simp add: run_summary summary_after_def never_cancelled_def
      succeeds_def handling_error_def match_total_def result_entry_def result_entries_def
      process_single_image_def none_env_def)

lemma five_run_summary:
  "summary_of (run sample_env never_cancelled [0, 1, 2, 3, 4] five_images) =
     Some \<lparr>processed = 5, successful = 4, failed = 1, total_matches = 0,
           results = [SuccessEntry ''img1.jpg'' (PyList []) 0, SuccessEntry ''img2.jpg'' (PyList []) 0,
                      FailureEntry ''img3.jpg'' ''Invalid image: Invalid or corrupted image file'',
                      SuccessEntry ''img4.jpg'' (PyList []) 0, SuccessEntry ''img6.jpg'' (PyList []) 0],
           total = 5, timestamp = ''2024-01-01T00:00:00''\<rparr>"
  by (simp add: run_summary summary_after_def never_cancelled_def five_images_def
      succeeds_def handling_error_def match_total_def result_entry_def result_entries_def
      process_single_image_def sample_env_def)

lemma sample_env_lists: "handling_error sample_env p = None"
  by (simp add: handling_error_def process_single_image_def sample_env_def)

text \<open>
  C8 (as amended). The results of a summary are in completion order: they are the entries
  of the futures that \<^verbatim>\<open>as_completed\<close> yielded, future by future in the order of
  the yields, and every entry carries the path of its future. When handling no result
  raises, each future has one entry, so the \<open>k\<close>-th result belongs to the \<open>k\<close>-th future
  that \<^verbatim>\<open>as_completed\<close> yielded.
\<close>

theorem summary_results_in_completion_order:
  assumes "summary_of (run env is_cancelled completed image_paths) = Some s"
  shows "processed s \<le> length completed
       \<and> results s = concat (map (\<lambda>i. result_entries env (image_paths ! i))
                               (take (processed s) completed))
       \<and> (\<forall>p. \<forall>e\<in>set (result_entries env p). entry_path e = p)
       \<and> ((\<forall>i\<in>set (take (processed s) completed). handling_error env (image_paths ! i) = None)
            \<longrightarrow> results s = map (\<lambda>i. result_entry env (image_paths ! i))
                                (take (processed s) completed)
              \<and> map entry_path (results s)
                  = map (\<lambda>i. image_paths ! i) (take (processed s) completed))"
proof -
  let ?hs = "handled is_cancelled completed 0"
  have s: "s = summary_after env image_paths ?hs"
    using assms by (rule summary_of_run_cases)
  have p: "processed s = length ?hs" by (simp add: s summary_after_def)
  have t: "take (processed s) completed = ?hs"
    using handled_prefix[of is_cancelled completed 0] p by simp
  have r: "results s = concat (map (\<lambda>i. result_entries env (image_paths ! i)) ?hs)"
    by (simp add: s summary_after_def)
  have 1: "processed s \<le> length completed"
    using p length_handled[of is_cancelled completed 0] by simp
  have 2: "\<forall>p. \<forall>e\<in>set (result_entries env p). entry_path e = p"
    using entry_path_result_entries by blast
  have 3: "results s = map (\<lambda>i. result_entry env (image_paths ! i)) (take (processed s) completed)
         \<and> map entry_path (results s)
             = map (\<lambda>i. image_paths ! i) (take (processed s) completed)"
    if "\<forall>i\<in>set (take (processed s) completed). handling_error env (image_paths ! i) = None"
  proof -
    have "results s = map (\<lambda>i. result_entry env (image_paths ! i)) ?hs"
      using r that t concat_result_entries_single[of ?hs env image_paths] by simp
    then show ?thesis using t by (simp add: entry_path_result_entry comp_def)
  qed
  have 4: "results s = concat (map (\<lambda>i. result_entries env (image_paths ! i))
                               (take (processed s) completed))"
    using r t by simp
  show ?thesis using 1 2 3 4 by blast
qed

lemma swapped_run_summary:
  "summary_of (run sample_env never_cancelled [1, 0] two_images) =
     Some \<lparr>processed = 2, successful = 2, failed = 0, total_matches = 0,
           results = [SuccessEntry ''b.jpg'' (PyList []) 0, SuccessEntry ''a.jpg'' (PyList []) 0],
           total = 2, timestamp = ''2024-01-01T00:00:00''\<rparr>"
  by (simp add: run_summary summary_after_def never_cancelled_def two_images_def
      succeeds_def handling_error_def match_total_def result_entry_def result_entries_def
      process_single_image_def sample_env_def)

theorem summary_results_in_completion_order_witness:
  "summary_of (run sample_env never_cancelled [1, 0] two_images) =
     Some \<lparr>processed = 2, successful = 2, failed = 0, total_matches = 0,
           results = [SuccessEntry ''b.jpg'' (PyList []) 0, SuccessEntry ''a.jpg'' (PyList []) 0],
           total = 2, timestamp = ''2024-01-01T00:00:00''\<rparr>
   \<and> [SuccessEntry ''b.jpg'' (PyList []) 0, SuccessEntry ''a.jpg'' (PyList []) 0]
       = concat (map (\<lambda>i. result_entries sample_env (two_images ! i)) (take 2 [1, 0]))
   \<and> map entry_path [SuccessEntry ''b.jpg'' (PyList []) 0, SuccessEntry ''a.jpg'' (PyList []) 0]
       = map (\<lambda>i. two_images ! i) (take 2 [1, 0])"
proof -
  note t = summary_results_in_completion_order[OF swapped_run_summary]
  have l: "\<forall>i\<in>set (take 2 [1, 0 :: nat]). handling_error sample_env (two_images ! i) = None"
    using sample_env_lists by simp
  have "[SuccessEntry ''b.jpg'' (PyList []) 0, SuccessEntry ''a.jpg'' (PyList []) 0]
       = concat (map (\<lambda>i. result_entries sample_env (two_images ! i)) (take 2 [1, 0]))"
    using t by simp
  moreover have "map entry_path [SuccessEntry ''b.jpg'' (PyList []) 0, SuccessEntry ''a.jpg'' (PyList []) 0]
       = map (\<lambda>i. two_images ! i) (take 2 [1, 0])"
    using t l by simp
  ultimately show ?thesis using swapped_run_summary by simp
qed

text \<open>
  Two paths submitted as a.jpg, b.jpg whose futures complete in the other order: the
  summary lists b.jpg first.
\<close>

theorem summary_not_in_submission_order_counterexample:
  "two_images = [''a.jpg'', ''b.jpg'']
   \<and> summary_of (run sample_env never_cancelled [1, 0] two_images) =
     Some \<lparr>processed = 2, successful = 2, failed = 0, total_matches = 0,
           results = [SuccessEntry ''b.jpg'' (PyList []) 0, SuccessEntry ''a.jpg'' (PyList []) 0],
           total = 2, timestamp = ''2024-01-01T00:00:00''\<rparr>
   \<and> map entry_path [SuccessEntry ''b.jpg'' (PyList []) 0, SuccessEntry ''a.jpg'' (PyList []) 0]
       \<noteq> two_images"
  by (simp add: run_summary summary_after_def never_cancelled_def two_images_def
      succeeds_def handling_error_def match_total_def result_entry_def result_entries_def
      process_single_image_def sample_env_def)

lemma emit_exception_double_entry:
  assumes "fst (validate_image_file env p)"
    and "search_criminal_database env p = Inr (Sized n emit_error)"
  shows "summary_of (run env never_cancelled [0] [p]) =
     Some \<lparr>processed = 1, successful = 1, failed = 1, total_matches = n,
           results = [SuccessEntry p (Sized n emit_error) n, FailureEntry p emit_error],
           total = 1, timestamp = now_isoformat env\<rparr>"
  using assms
  by (cases "validate_image_file env p")
     (simp add: run_summary summary_after_def never_cancelled_def
        succeeds_def handling_error_def match_total_def result_entry_def result_entries_def
        process_single_image_def)

text \<open>
  C6 (as amended). In a run that is not cancelled and in which every future completes,
  the summary is emitted, every item is processed and the results hold the entries of
  every item. An exception raised by the search of one item makes that item's entry a
  failure carrying the exception's text (empty when that text is empty); an invalid image
  makes it a failure whose message starts with "Invalid image: " and so is not empty; an
  exception raised while the result of an item is handled is recorded as a failure entry
  of that item with its text. When handling no result raises, \<open>successful\<close> and
  \<open>failed\<close> count the items that succeed and fail and each item has one entry. For five
  images of which one is invalid the summary has total 5, successful 4 and failed 1.
\<close>

theorem batch_failures_are_isolated:
  assumes "mset completed = mset [0..<length image_paths]"
    and "\<forall>k. \<not> is_cancelled k"
  shows "\<exists>s. summary_of (run env is_cancelled completed image_paths) = Some s
       \<and> total s = length image_paths
       \<and> processed s = length image_paths
       \<and> results s = concat (map (\<lambda>i. result_entries env (image_paths ! i)) completed)
       \<and> ((\<forall>p\<in>set image_paths. handling_error env p = None) \<longrightarrow>
             successful s = length (filter (succeeds env) image_paths)
           \<and> failed s = length (filter (\<lambda>p. \<not> succeeds env p) image_paths)
           \<and> results s = map (\<lambda>i. result_entry env (image_paths ! i)) completed)
       \<and> (\<forall>p e. fst (validate_image_file env p) \<and> search_criminal_database env p = Inl e
            \<longrightarrow> \<not> succeeds env p \<and> result_entry env p = FailureEntry p e
              \<and> result_entries env p = [FailureEntry p e])
       \<and> (\<forall>p. \<not> fst (validate_image_file env p)
            \<longrightarrow> \<not> succeeds env p
              \<and> result_entry env p
                  = FailureEntry p (''Invalid image: '' @ snd (validate_image_file env p))
              \<and> result_entries env p
                  = [FailureEntry p (''Invalid image: '' @ snd (validate_image_file env p))]
              \<and> ''Invalid image: '' @ snd (validate_image_file env p) \<noteq> [])
       \<and> (\<forall>p t. handling_error env p = Some t
            \<longrightarrow> FailureEntry p t \<in> set (result_entries env p))"
proof -
  let ?s = "summary_after env image_paths completed"
  have len: "length completed = length image_paths"
    using assms(1) by (metis size_mset length_upt minus_nat.diff_0)
  have hs: "handled is_cancelled completed 0 = completed"
    using assms(2) by (rule handled_never)
  have 1: "summary_of (run env is_cancelled completed image_paths) = Some ?s"
    by (simp add: run_summary hs len)
  have 2: "total ?s = length image_paths" "processed ?s = length image_paths"
    "results ?s = concat (map (\<lambda>i. result_entries env (image_paths ! i)) completed)"
    by (simp_all add: summary_after_def len)
  have 3: "successful ?s = length (filter (succeeds env) image_paths)
      \<and> failed ?s = length (filter (\<lambda>p. \<not> succeeds env p) image_paths)
      \<and> results ?s = map (\<lambda>i. result_entry env (image_paths ! i)) completed"
    if lists: "\<forall>p\<in>set image_paths. handling_error env p = None"
  proof -
    have "set completed = set [0..<length image_paths]"
      using assms(1) by (metis set_mset_mset)
    then have ok: "\<forall>i\<in>set completed. handling_error env (image_paths ! i) = None"
      using lists by simp
    have a: "successful ?s = length (filter (succeeds env) image_paths)"
      using length_filter_permutation[OF assms(1), of "succeeds env"]
      by (simp add: summary_after_def)
    have b: "failed ?s = length (filter (\<lambda>p. \<not> succeeds env p) image_paths)"
      using length_filter_permutation[OF assms(1), of "\<lambda>p. \<not> succeeds env p"]
        no_handling_error_filter[OF ok]
      by (simp add: summary_after_def)
    have c: "results ?s = map (\<lambda>i. result_entry env (image_paths ! i)) completed"
      using concat_result_entries_single[OF ok] by (simp add: summary_after_def)
    show ?thesis using a b c by simp
  qed
  have 4: "\<not> succeeds env p \<and> result_entry env p = FailureEntry p e
      \<and> result_entries env p = [FailureEntry p e]"
    if "fst (validate_image_file env p) \<and> search_criminal_database env p = Inl e" for p e
    using that
    by (cases "validate_image_file env p")
       (simp add: succeeds_def result_entry_def result_entries_def process_single_image_def)
  have 5: "\<not> succeeds env p
      \<and> result_entry env p = FailureEntry p (''Invalid image: '' @ snd (validate_image_file env p))
      \<and> result_entries env p
          = [FailureEntry p (''Invalid image: '' @ snd (validate_image_file env p))]
      \<and> ''Invalid image: '' @ snd (validate_image_file env p) \<noteq> []"
    if "\<not> fst (validate_image_file env p)" for p
    using that
    by (cases "validate_image_file env p")
       (simp add: succeeds_def result_entry_def result_entries_def process_single_image_def)
  have 6: "FailureEntry p t \<in> set (result_entries env p)"
    if "handling_error env p = Some t" for p t
    using that
    by (auto simp: handling_error_def result_entries_def result_entry_def
        split: worker_result.splits matches_value.splits)
  show ?thesis using 1 2 3 4 5 6 by blast
qed

theorem batch_failures_are_isolated_witness:
  "mset [0, 1, 2, 3, 4] = mset [0..<length five_images]
   \<and> summary_of (run sample_env never_cancelled [0, 1, 2, 3, 4] five_images) =
     Some \<lparr>processed = 5, successful = 4, failed = 1, total_matches = 0,
           results = [SuccessEntry ''img1.jpg'' (PyList []) 0, SuccessEntry ''img2.jpg'' (PyList []) 0,
                      FailureEntry ''img3.jpg'' ''Invalid image: Invalid or corrupted image file'',
                      SuccessEntry ''img4.jpg'' (PyList []) 0, SuccessEntry ''img6.jpg'' (PyList []) 0],
           total = 5, timestamp = ''2024-01-01T00:00:00''\<rparr>
   \<and> length (filter (succeeds sample_env) five_images) = 4
   \<and> length (filter (\<lambda>p. \<not> succeeds sample_env p) five_images) = 1
   \<and> result_entry sample_env ''img3.jpg''
       = FailureEntry ''img3.jpg'' ''Invalid image: Invalid or corrupted image file''
   \<and> result_entry sample_env ''img5.jpg'' = FailureEntry ''img5.jpg'' []
   \<and> FailureEntry ''img1.jpg'' ''object of type 'NoneType' has no len()''
       \<in> set (result_entries none_env ''img1.jpg'')"
proof -
  have perm: "mset [0, 1, 2, 3, 4] = mset [0..<length five_images]"
    by (simp add: five_images_def upt_rec eval_nat_numeral del: mset_upt)
  have nc: "\<forall>k. \<not> never_cancelled k" by (simp add: never_cancelled_def)
  have lists: "\<forall>p\<in>set five_images. handling_error sample_env p = None"
    using sample_env_lists by simp
  from batch_failures_are_isolated[OF perm nc, of sample_env] lists
  obtain s where s: "summary_of (run sample_env never_cancelled [0, 1, 2, 3, 4] five_images) = Some s"
    "successful s = length (filter (succeeds sample_env) five_images)"
    "failed s = length (filter (\<lambda>p. \<not> succeeds sample_env p) five_images)"
    and inv: "\<forall>p. \<not> fst (validate_image_file sample_env p)
            \<longrightarrow> \<not> succeeds sample_env p
              \<and> result_entry sample_env p
                  = FailureEntry p (''Invalid image: '' @ snd (validate_image_file sample_env p))
              \<and> result_entries sample_env p
                  = [FailureEntry p (''Invalid image: '' @ snd (validate_image_file sample_env p))]
              \<and> ''Invalid image: '' @ snd (validate_image_file sample_env p) \<noteq> []"
    and exn: "\<forall>p e. fst (validate_image_file sample_env p)
              \<and> search_criminal_database sample_env p = Inl e
            \<longrightarrow> \<not> succeeds sample_env p \<and> result_entry sample_env p = FailureEntry p e
              \<and> result_entries sample_env p = [FailureEntry p e]"
    by blast
  have a: "result_entry sample_env ''img3.jpg''
       = FailureEntry ''img3.jpg'' ''Invalid image: Invalid or corrupted image file''"
    using inv by (simp add: sample_env_def)
  have "fst (validate_image_file sample_env ''img5.jpg'')
      \<and> search_criminal_database sample_env ''img5.jpg'' = Inl []"
    by (simp add: sample_env_def)
  then have b: "result_entry sample_env ''img5.jpg'' = FailureEntry ''img5.jpg'' []"
    using exn by blast
  have "handling_error none_env ''img1.jpg'' = Some ''object of type 'NoneType' has no len()''"
    by (simp add: handling_error_def process_single_image_def none_env_def)
  with batch_failures_are_isolated[OF perm nc, of none_env]
  have c: "FailureEntry ''img1.jpg'' ''object of type 'NoneType' has no len()''
       \<in> set (result_entries none_env ''img1.jpg'')"
    by blast
  have "s = \<lparr>processed = 5, successful = 4, failed = 1, total_matches = 0,
           results = [SuccessEntry ''img1.jpg'' (PyList []) 0, SuccessEntry ''img2.jpg'' (PyList []) 0,
                      FailureEntry ''img3.jpg'' ''Invalid image: Invalid or corrupted image file'',
                      SuccessEntry ''img4.jpg'' (PyList []) 0, SuccessEntry ''img6.jpg'' (PyList []) 0],
           total = 5, timestamp = ''2024-01-01T00:00:00''\<rparr>"
    using s(1) five_run_summary by simp
  then show ?thesis using perm s a b c by simp
qed

text \<open>
  A valid image whose search raises an exception of empty text: the item is recorded as
  failed, with the empty error message.
\<close>

theorem empty_exception_text_counterexample:
  "fst (validate_image_file sample_env ''img5.jpg'')
   \<and> search_criminal_database sample_env ''img5.jpg'' = Inl []
   \<and> summary_of (run sample_env never_cancelled [0] [''img5.jpg'']) =
     Some \<lparr>processed = 1, successful = 0, failed = 1, total_matches = 0,
           results = [FailureEntry ''img5.jpg'' []],
           total = 1, timestamp = ''2024-01-01T00:00:00''\<rparr>"
  by (simp add: run_summary summary_after_def never_cancelled_def
      succeeds_def handling_error_def match_total_def result_entry_def result_entries_def
      process_single_image_def sample_env_def)

text \<open>
  C7 (as amended). When the flag is first read as set at the check made after \<open>n\<close>
  results, and a further future completes, the loop handles no further result, logs the
  cancellation, and the run ends as every run does, with the \<^verbatim>\<open>batch_completed\<close>
  signal. Its summary has \<open>processed = n\<close> and holds the entries of the first \<open>n\<close>
  completed futures only (one entry each when handling no result raises). All image paths
  were submitted to the executor before the loop.
\<close>

theorem cancelled_run_emits_completed:
  assumes "is_cancelled n" and "\<forall>j<n. \<not> is_cancelled j" and "n < length completed"
  shows "\<exists>evs s done_line.
           emitted (run env is_cancelled completed image_paths)
             = evs @ [log_info ''Batch processing cancelled'', batch_completed s, log_info done_line]
         \<and> summary_of (run env is_cancelled completed image_paths) = Some s
         \<and> processed s = n
         \<and> total s = length image_paths
         \<and> results s = concat (map (\<lambda>i. result_entries env (image_paths ! i)) (take n completed))
         \<and> ((\<forall>i\<in>set (take n completed). handling_error env (image_paths ! i) = None)
              \<longrightarrow> results s = map (\<lambda>i. result_entry env (image_paths ! i)) (take n completed))
         \<and> submitted (run env is_cancelled completed image_paths) = image_paths"
proof -
  have hs: "handled is_cancelled completed 0 = take n completed"
    using handled_first[of is_cancelled 0 n completed] assms by simp
  let ?s = "summary_after env image_paths (take n completed)"
  have lt: "length (handled is_cancelled completed 0) < length completed"
    using hs assms(3) by simp
  from run_cancelled_emitted[OF lt, of env image_paths]
  obtain evs done_line where e: "emitted (run env is_cancelled completed image_paths)
      = evs @ [log_info ''Batch processing cancelled'', batch_completed ?s, log_info done_line]"
    unfolding hs by blast
  have 1: "summary_of (run env is_cancelled completed image_paths) = Some ?s"
    using assms(3) by (simp add: run_summary hs)
  have 2: "processed ?s = n" "total ?s = length image_paths"
    "results ?s = concat (map (\<lambda>i. result_entries env (image_paths ! i)) (take n completed))"
    using assms(3) by (simp_all add: summary_after_def)
  have 3: "results ?s = map (\<lambda>i. result_entry env (image_paths ! i)) (take n completed)"
    if "\<forall>i\<in>set (take n completed). handling_error env (image_paths ! i) = None"
    using concat_result_entries_single[OF that] 2(3) by simp
  show ?thesis using e 1 2 3 run_submitted by blast
qed

lemma cancelled_run_summary:
  "summary_of (run sample_env (cancelled_after 2) [0, 1, 2, 3, 4] five_images) =
     Some \<lparr>processed = 2, successful = 2, failed = 0, total_matches = 0,
           results = [SuccessEntry ''img1.jpg'' (PyList []) 0, SuccessEntry ''img2.jpg'' (PyList []) 0],
           total = 5, timestamp = ''2024-01-01T00:00:00''\<rparr>"
  by (simp add: run_summary summary_after_def cancelled_after_def five_images_def
      succeeds_def handling_error_def match_total_def result_entry_def result_entries_def
      process_single_image_def sample_env_def)

theorem cancelled_run_emits_completed_witness:
  "cancelled_after 2 2 \<and> 2 < length [0, 1, 2, 3, 4 :: nat]
   \<and> summary_of (run sample_env (cancelled_after 2) [0, 1, 2, 3, 4] five_images) =
     Some \<lparr>processed = 2, successful = 2, failed = 0, total_matches = 0,
           results = [SuccessEntry ''img1.jpg'' (PyList []) 0, SuccessEntry ''img2.jpg'' (PyList []) 0],
           total = 5, timestamp = ''2024-01-01T00:00:00''\<rparr>
   \<and> submitted (run sample_env (cancelled_after 2) [0, 1, 2, 3, 4] five_images) = five_images
   \<and> (\<exists>evs s done_line.
         emitted (run sample_env (cancelled_after 2) [0, 1, 2, 3, 4] five_images)
           = evs @ [log_info ''Batch processing cancelled'', batch_completed s, log_info done_line]
       \<and> processed s = 2)"
proof -
  have a: "cancelled_after 2 2" by (simp add: cancelled_after_def)
  have b: "\<forall>j<2. \<not> cancelled_after 2 j" by (simp add: cancelled_after_def)
  have c: "2 < length [0, 1, 2, 3, 4 :: nat]" by simp
  from cancelled_run_emits_completed[OF a b c, of sample_env five_images]
  obtain evs s done_line where h:
    "emitted (run sample_env (cancelled_after 2) [0, 1, 2, 3, 4] five_images)
       = evs @ [log_info ''Batch processing cancelled'', batch_completed s, log_info done_line]"
    "processed s = 2"
    "submitted (run sample_env (cancelled_after 2) [0, 1, 2, 3, 4] five_images) = five_images"
    by blast
  show ?thesis using a c h cancelled_run_summary by blast
qed

text \<open>
  Five images, the flag set after two results: the run ends with
  \<^verbatim>\<open>batch_completed\<close> and the log line of a completed run, and all five paths had
  been submitted.
\<close>

theorem cancelled_run_signals_completed_counterexample:
  "cancelled_after 2 2
   \<and> emitted (run sample_env (cancelled_after 2) [0, 1, 2, 3, 4] five_images) =
       [log_info ''Starting batch processing: 5 images'',
        image_processed ''img1.jpg'' [],
        progress_updated 1 5 ''Processed: img1.jpg - 0 matches found'',
        image_processed ''img2.jpg'' [],
        progress_updated 2 5 ''Processed: img2.jpg - 0 matches found'',
        log_info ''Batch processing cancelled'',
        batch_completed
          \<lparr>processed = 2, successful = 2, failed = 0, total_matches = 0,
           results = [SuccessEntry ''img1.jpg'' (PyList []) 0, SuccessEntry ''img2.jpg'' (PyList []) 0],
           total = 5, timestamp = ''2024-01-01T00:00:00''\<rparr>,
        log_info ''Batch processing completed: 2 successful, 0 failed'']
   \<and> submitted (run sample_env (cancelled_after 2) [0, 1, 2, 3, 4] five_images) = five_images"
  by (simp add: run_def handle_future_def cancelled_after_def five_images_def
      process_single_image_def sample_env_def show_nat.simps Let_def)

end
